theory Spec2Isabelle
  imports Main "HOL-Library.AList"
begin

section \<open>Data model of main.js\<close>

text \<open>
  The two marks of the game. In the source they are the strings \<^verbatim>\<open>'X'\<close> and
  \<^verbatim>\<open>'O'\<close>, held in \<^verbatim>\<open>currentPlayer\<close> and stored in the board.
\<close>

datatype player = PlayerX | PlayerO

fun player_str :: "player \<Rightarrow> string" where
  "player_str PlayerX = ''X''"
| "player_str PlayerO = ''O''"

text \<open>
  What a read of \<^verbatim>\<open>boardState[k]\<close> can give: \<^verbatim>\<open>null\<close> (a cleared cell),
  \<^verbatim>\<open>undefined\<close> (no such entry) or a player's mark. Only a mark is truthy.
\<close>

datatype cell = Null | Undefined | Mark player

fun truthy :: "cell \<Rightarrow> bool" where
  "truthy (Mark p) = True"
| "truthy Null = False"
| "truthy Undefined = False"

fun cell_str :: "cell \<Rightarrow> string" where
  "cell_str (Mark p) = player_str p"
| "cell_str Null = ''null''"
| "cell_str Undefined = ''undefined''"

text \<open>
  \<^verbatim>\<open>boardState\<close> is a JavaScript array object. Its indexed elements are the list
  \<open>elems\<close>; a position that was never written (a hole left by a write beyond the end)
  holds \<open>Undefined\<close>, which is what reading it returns. An integer key that is not an
  array index (negative, or above \<open>2^32 - 2\<close>) names an ordinary property of the
  object; these are kept in the association list \<open>props\<close>. Keys are integers: the
  handler's parameter is documented as a number and the listeners pass \<open>0..8\<close>.
\<close>

record jsarray =
  elems :: "cell list"
  props :: "(int \<times> cell) list"

definition is_array_index :: "int \<Rightarrow> bool" where
  "is_array_index k = (0 \<le> k \<and> k < 4294967295)"

definition aget :: "jsarray \<Rightarrow> int \<Rightarrow> cell" where
  "aget arr k =
     (if is_array_index k
      then (if nat k < length (elems arr) then elems arr ! nat k else Undefined)
      else (case map_of (props arr) k of None \<Rightarrow> Undefined | Some v \<Rightarrow> v))"

definition aset :: "jsarray \<Rightarrow> int \<Rightarrow> cell \<Rightarrow> jsarray" where
  "aset arr k v =
     (if is_array_index k
      then (if nat k < length (elems arr)
            then arr\<lparr>elems := (elems arr)[nat k := v]\<rparr>
            else arr\<lparr>elems := elems arr @ replicate (nat k - length (elems arr)) Undefined @ [v]\<rparr>)
      else arr\<lparr>props := AList.update k v (props arr)\<rparr>)"

text \<open>\<^verbatim>\<open>Array.prototype.fill\<close>: every index below the length is overwritten.\<close>

definition afill :: "jsarray \<Rightarrow> cell \<Rightarrow> jsarray" where
  "afill arr v = arr\<lparr>elems := replicate (length (elems arr)) v\<rparr>"

text \<open>
  \<^verbatim>\<open>Array.prototype.every\<close>: the callback runs on the indexed elements only. It skips
  holes; the one callback used, \<^verbatim>\<open>cell !== null\<close>, is true of \<open>Undefined\<close>, so
  skipping a hole and testing it agree.
\<close>

definition aevery :: "(cell \<Rightarrow> bool) \<Rightarrow> jsarray \<Rightarrow> bool" where
  "aevery f arr = list_all f (elems arr)"

text \<open>
  The module's state: the three variables under \<^verbatim>\<open>// Game State\<close>, and the part of the
  page the functions write: the text of \<^verbatim>\<open>gameStatus\<close> and the set of board cells that
  carry the class \<^verbatim>\<open>winning\<close>. The clicked cell's own text and player class, and the
  sounds, are written and never read back; they are left out, and with them the second
  parameter of \<^verbatim>\<open>handleCellClick\<close>, which is taken to be an element as documented.
\<close>

record game =
  boardState :: jsarray
  currentPlayer :: player
  isGameActive :: bool
  gameStatus :: string
  winningCells :: "int set"

section \<open>The functions of main.js\<close>

definition WINNING_COMBINATIONS :: "int list list" where
  "WINNING_COMBINATIONS = [[0, 1, 2], [3, 4, 5], [6, 7, 8]]"

definition updateStatus :: "string \<Rightarrow> game \<Rightarrow> game" where
  "updateStatus message s = s\<lparr>gameStatus := message\<rparr>"

definition turn_message :: "player \<Rightarrow> string" where
  "turn_message p = ''Player '' @ player_str p @ '''s Turn''"

definition win_message :: "cell \<Rightarrow> string" where
  "win_message w = ''Player '' @ cell_str w @ '' Wins!''"

definition draw_message :: string where
  "draw_message = ''It's a Draw!''"

text \<open>
  \<^verbatim>\<open>renderBoard\<close> empties the board element and creates nine fresh cells, none of
  them highlighted; the \<open>i\<close>-th gets the listener \<^verbatim>\<open>() => handleCellClick(i, cell)\<close>
  for \<open>i = 0, ..., 8\<close>. Then it shows whose turn it is.
\<close>

definition renderBoard :: "game \<Rightarrow> game" where
  "renderBoard s = updateStatus (turn_message (currentPlayer s)) (s\<lparr>winningCells := {}\<rparr>)"

text \<open>
  The \<^verbatim>\<open>for ... of\<close> loop of \<^verbatim>\<open>checkWinner\<close>, over the combinations still to
  visit. Destructuring \<^verbatim>\<open>[a, b, c]\<close> takes the first three entries; with fewer, a
  missing name is \<^verbatim>\<open>undefined\<close>, the read under it gives no mark, the test fails
  and the combination is passed over. The winner returned is the value read at \<open>a\<close>.
\<close>

fun checkWinner_loop :: "jsarray \<Rightarrow> int list list \<Rightarrow> (cell \<times> int list) option" where
  "checkWinner_loop board [] = None"
| "checkWinner_loop board (combination # rest) =
     (case combination of
        a # b # c # _ \<Rightarrow>
          (if truthy (aget board a) \<and> aget board a = aget board b \<and> aget board a = aget board c
           then Some (aget board a, combination)
           else checkWinner_loop board rest)
      | _ \<Rightarrow> checkWinner_loop board rest)"

definition checkWinner :: "game \<Rightarrow> (cell \<times> int list) option" where
  "checkWinner s = checkWinner_loop (boardState s) WINNING_COMBINATIONS"

definition highlightWinningCells :: "int list \<Rightarrow> game \<Rightarrow> game" where
  "highlightWinningCells combination s = s\<lparr>winningCells := winningCells s \<union> set combination\<rparr>"

definition handleCellClick :: "int \<Rightarrow> game \<Rightarrow> game" where
  "handleCellClick index s =
     (if \<not> isGameActive s \<or> truthy (aget (boardState s) index) then s
      else
        let s1 = s\<lparr>boardState := aset (boardState s) index (Mark (currentPlayer s))\<rparr> in
        (case checkWinner s1 of
           Some (winner, combination) \<Rightarrow>
             highlightWinningCells combination
               (updateStatus (win_message winner) (s1\<lparr>isGameActive := False\<rparr>))
         | None \<Rightarrow>
             if aevery (\<lambda>cell. cell \<noteq> Null) (boardState s1)
             then updateStatus draw_message (s1\<lparr>isGameActive := False\<rparr>)
             else
               let s2 = s1\<lparr>currentPlayer :=
                              (if currentPlayer s1 = PlayerX then PlayerO else PlayerX)\<rparr>
               in updateStatus (turn_message (currentPlayer s2)) s2))"

definition resetGame :: "game \<Rightarrow> game" where
  "resetGame s =
     renderBoard (s\<lparr>boardState := afill (boardState s) Null,
                    currentPlayer := PlayerX,
                    isGameActive := True\<rparr>)"

text \<open>
  The state once the module has loaded and \<^verbatim>\<open>initialize\<close> has rendered the board:
  \<^verbatim>\<open>Array(9).fill(null)\<close>, player X to move, game active.
\<close>

definition initial_game :: game where
  "initial_game =
     renderBoard \<lparr>boardState = \<lparr>elems = replicate 9 Null, props = []\<rparr>,
                  currentPlayer = PlayerX,
                  isGameActive = True,
                  gameStatus = [],
                  winningCells = {}\<rparr>"

text \<open>
  Calls of the two entry points, and running a list of them in order. The page itself
  only ever makes the calls of \<open>page_calls\<close>: one click listener per rendered cell,
  bound to the cell's index by the loop of \<^verbatim>\<open>renderBoard\<close>, and the reset button.
\<close>

datatype call = HandleCellClick int | ResetGame

fun exec :: "call \<Rightarrow> game \<Rightarrow> game" where
  "exec (HandleCellClick index) s = handleCellClick index s"
| "exec ResetGame s = resetGame s"

fun run :: "call list \<Rightarrow> game \<Rightarrow> game" where
  "run [] s = s"
| "run (c # cs) s = run cs (exec c s)"

definition page_calls :: "call list" where
  "page_calls = map (\<lambda>i. HandleCellClick (int i)) [0..<9] @ [ResetGame]"

section \<open>Notions used to state the properties\<close>

text \<open>
  A cell is non-Empty when it holds a mark, that is when its value is truthy. A
  combination wins when it names three cells that are all non-Empty and equal.
\<close>

fun wins :: "jsarray \<Rightarrow> int list \<Rightarrow> bool" where
  "wins board [a, b, c] =
     (truthy (aget board a) \<and> truthy (aget board b) \<and> truthy (aget board c) \<and>
      aget board a = aget board b \<and> aget board b = aget board c)"
| "wins board _ = False"

text \<open>
  The eight lines of the 3x3 board: three rows, three columns, two diagonals. The
  source's list \<open>WINNING_COMBINATIONS\<close> holds the first three only.
\<close>

definition spec_triples :: "int list list" where
  "spec_triples =
     [[0, 1, 2], [3, 4, 5], [6, 7, 8],
      [0, 3, 6], [1, 4, 7], [2, 5, 8],
      [0, 4, 8], [2, 4, 6]]"

fun other :: "player \<Rightarrow> player" where
  "other PlayerX = PlayerO"
| "other PlayerO = PlayerX"

text \<open>
  The board as the page has it: nine indexed elements, none of them a hole, and no
  further property on the array object.
\<close>

definition page_board :: "jsarray \<Rightarrow> bool" where
  "page_board arr =
     (length (elems arr) = 9 \<and> Undefined \<notin> set (elems arr) \<and> props arr = [])"

text \<open>
  The number of entries of the array object: its indexed elements that are not holes,
  and its other properties.
\<close>

definition entries :: "jsarray \<Rightarrow> nat" where
  "entries arr = length (filter (\<lambda>c. c \<noteq> Undefined) (elems arr)) + length (props arr)"

text \<open>The number of marks of one player among the elements of the board.\<close>

definition count_marks :: "jsarray \<Rightarrow> player \<Rightarrow> nat" where
  "count_marks arr p = count_list (elems arr) (Mark p)"

text \<open>
  A call whose index, if it has one, is an array index. Every call of the page is one.
\<close>

fun index_call :: "call \<Rightarrow> bool" where
  "index_call (HandleCellClick i) = is_array_index i"
| "index_call ResetGame = True"

text \<open>Invariants of the states that runs from the initial state reach.\<close>

definition balanced :: "game \<Rightarrow> bool" where
  "balanced s =
     (let nx = count_marks (boardState s) PlayerX; no = count_marks (boardState s) PlayerO in
      if isGameActive s
      then (if currentPlayer s = PlayerX then nx = no else nx = no + 1)
      else (nx = no \<or> nx = no + 1))"

definition no_winner_yet :: "game \<Rightarrow> bool" where
  "no_winner_yet s = (isGameActive s \<longrightarrow> checkWinner s = None)"

definition draw_inv :: "game \<Rightarrow> bool" where
  "draw_inv s =
     (page_board (boardState s) \<and>
      (if isGameActive s then Null \<in> set (elems (boardState s))
       else checkWinner s \<noteq> None \<or> gameStatus s = draw_message))"

text \<open>Sample runs used below.\<close>

definition top_row_game :: game where
  "top_row_game = run (map HandleCellClick [0, 4, 1, 3]) initial_game"

definition column_game :: game where
  "column_game = run (map HandleCellClick [0, 1, 3, 2, 6]) initial_game"

definition diagonal_game :: game where
  "diagonal_game = run (map HandleCellClick [0, 1, 4, 2, 8]) initial_game"

definition full_game :: game where
  "full_game = run (map HandleCellClick [0, 1, 2, 4, 3, 5, 7, 6, 8]) initial_game"

section \<open>Reading and writing the board\<close>

lemma aget_aset_same: "aget (aset arr k v) k = v"
  by (auto simp: aget_def aset_def nth_append update_conv')

lemma aget_aset_other: "j \<noteq> k \<Longrightarrow> aget (aset arr k v) j = aget arr j"
  by (auto simp: aget_def aset_def nth_append nth_list_update update_conv' is_array_index_def)

lemma aget_low:
  "9 \<le> length (elems a) \<Longrightarrow> k \<in> {0..8} \<Longrightarrow> aget a k = elems a ! nat k"
  by (auto simp: aget_def is_array_index_def)

lemma elems_aset_cases:
  "elems (aset arr i v) =
     (if is_array_index i
      then (if nat i < length (elems arr) then (elems arr)[nat i := v]
            else elems arr @ replicate (nat i - length (elems arr)) Undefined @ [v])
      else elems arr)"
  by (simp add: aset_def)

lemma boardState_click:
  "boardState (handleCellClick i s) =
     (if \<not> isGameActive s \<or> truthy (aget (boardState s) i) then boardState s
      else aset (boardState s) i (Mark (currentPlayer s)))"
  by (simp add: handleCellClick_def Let_def updateStatus_def highlightWinningCells_def
      split: option.split)

lemma truthy_iff: "c \<noteq> Undefined \<Longrightarrow> truthy c \<longleftrightarrow> c \<noteq> Null"
  by (cases c) auto

section \<open>The win check finds the first winning combination\<close>

lemma wins_shape: "wins board t \<Longrightarrow> \<exists>a b c. t = [a, b, c]"
  by (cases "(board, t)" rule: wins.cases) auto

lemma checkWinner_loop_find:
  "\<forall>t\<in>set cs. length t = 3 \<Longrightarrow>
   checkWinner_loop board cs =
     (case find (wins board) cs of None \<Rightarrow> None | Some t \<Rightarrow> Some (aget board (hd t), t))"
proof (induction cs)
  case Nil
  then show ?case by simp
next
  case (Cons t cs)
  from Cons.prems have "length t = 3" by simp
  then obtain a b c where t: "t = [a, b, c]"
    by (metis (no_types, lifting) length_0_conv length_Suc_conv numeral_3_eq_3)
  from Cons show ?case by (auto simp: t)
qed

lemma checkWinner_find:
  "checkWinner s =
     (case find (wins (boardState s)) WINNING_COMBINATIONS of
        None \<Rightarrow> None | Some t \<Rightarrow> Some (aget (boardState s) (hd t), t))"
  unfolding checkWinner_def
  by (rule checkWinner_loop_find) (simp add: WINNING_COMBINATIONS_def)

lemma wins_frame:
  assumes "wins (aset board i v) t" "i \<notin> set t"
  shows "wins board t"
proof -
  from wins_shape[OF assms(1)] obtain a b c where t: "t = [a, b, c]"
    by blast
  with assms show ?thesis by (simp add: aget_aset_other)
qed

lemma wins_value:
  assumes "wins board t" "i \<in> set t"
  shows "aget board (hd t) = aget board i"
proof -
  from wins_shape[OF assms(1)] obtain a b c where t: "t = [a, b, c]"
    by blast
  with assms show ?thesis by auto
qed

lemma combinations_in_spec: "set WINNING_COMBINATIONS \<subseteq> set spec_triples"
  by (simp add: WINNING_COMBINATIONS_def spec_triples_def)

section \<open>The draw check on a nine-cell board\<close>

lemma all_nine:
  assumes "length xs = 9" "Undefined \<notin> set xs"
  shows "list_all (\<lambda>c. c \<noteq> Null) xs \<longleftrightarrow> (\<forall>k\<in>{0..8::int}. truthy (xs ! nat k))"
proof
  assume L: "list_all (\<lambda>c. c \<noteq> Null) xs"
  show "\<forall>k\<in>{0..8::int}. truthy (xs ! nat k)"
  proof
    fix k :: int assume "k \<in> {0..8}"
    then have n: "nat k < length xs" using assms(1) by auto
    then have "xs ! nat k \<in> set xs" by simp
    with assms(2) have "xs ! nat k \<noteq> Undefined" by metis
    moreover from L n have "xs ! nat k \<noteq> Null" by (simp add: list_all_length)
    ultimately show "truthy (xs ! nat k)" by (simp add: truthy_iff)
  qed
next
  assume R: "\<forall>k\<in>{0..8::int}. truthy (xs ! nat k)"
  show "list_all (\<lambda>c. c \<noteq> Null) xs"
    unfolding list_all_length
  proof (intro allI impI)
    fix n assume "n < length xs"
    then have "int n \<in> {0..8}" using assms(1) by simp
    with R have "truthy (xs ! nat (int n))" by blast
    then show "xs ! n \<noteq> Null" by auto
  qed
qed

lemma every_nine:
  assumes "length (elems arr) = 9" "Undefined \<notin> set (elems arr)"
  shows "aevery (\<lambda>c. c \<noteq> Null) (aset arr i (Mark p)) \<longleftrightarrow>
         (\<forall>k\<in>{0..8}. truthy (aget (aset arr i (Mark p)) k))"
proof -
  let ?xs = "elems arr"
  let ?arr' = "aset arr i (Mark p)"
  have len: "9 \<le> length (elems ?arr')"
    using assms(1) by (simp add: elems_aset_cases)
  have low: "(\<forall>k\<in>{0..8}. truthy (aget ?arr' k)) \<longleftrightarrow>
             (\<forall>k\<in>{0..8::int}. truthy (elems ?arr' ! nat k))"
    using aget_low[OF len] by simp
  show ?thesis
  proof (cases "is_array_index i \<and> nat i < 9")
    case True
    let ?ys = "?xs[nat i := Mark p]"
    have e: "elems ?arr' = ?ys" using True assms(1) by (simp add: elems_aset_cases)
    have "Undefined \<notin> set ?ys"
      using assms(2) set_update_subset_insert[of ?xs "nat i" "Mark p"] by auto
    then have "list_all (\<lambda>c. c \<noteq> Null) ?ys \<longleftrightarrow> (\<forall>k\<in>{0..8::int}. truthy (?ys ! nat k))"
      using assms(1) by (intro all_nine) simp_all
    then show ?thesis unfolding low by (simp add: aevery_def e)
  next
    case False
    have a: "list_all (\<lambda>c. c \<noteq> Null) ?xs \<longleftrightarrow> (\<forall>k\<in>{0..8::int}. truthy (?xs ! nat k))"
      using assms by (rule all_nine)
    have b: "list_all (\<lambda>c. c \<noteq> Null) (elems ?arr') \<longleftrightarrow> list_all (\<lambda>c. c \<noteq> Null) ?xs"
      using False assms(1) by (auto simp: elems_aset_cases list_all_iff)
    have c: "\<forall>k\<in>{0..8::int}. elems ?arr' ! nat k = ?xs ! nat k"
      using False assms(1) by (auto simp: elems_aset_cases nth_append)
    show ?thesis unfolding low using a b c by (simp add: aevery_def)
  qed
qed

section \<open>Ignored clicks\<close>

text \<open>
  Claim C3. A click on a cell that already holds a mark changes nothing: the handler
  returns the state it was given, board, current player, activity flag, status text and
  highlighting alike. The handler has no error path; the click is dropped silently.
\<close>

theorem occupied_cell_ignored:
  "truthy (aget (boardState s) i) \<Longrightarrow> handleCellClick i s = s"
  by (simp add: handleCellClick_def)

theorem occupied_cell_ignored_witness:
  "truthy (aget (boardState top_row_game) 4) \<and>
   handleCellClick 4 top_row_game = top_row_game"
proof -
  have h: "truthy (aget (boardState top_row_game) 4)"
    unfolding top_row_game_def by code_simp
  from h occupied_cell_ignored[OF h] show ?thesis by simp
qed

text \<open>
  Claim C4. Once the game has ended (\<open>isGameActive\<close> is false, which is how the source
  holds both Won and Draw), no click at any index, and no sequence of clicks, changes
  the state; \<open>resetGame\<close> makes the game active again.
\<close>

theorem ended_game_ignores_clicks:
  "\<not> isGameActive s \<Longrightarrow>
   handleCellClick i s = s \<and> run (map HandleCellClick idxs) s = s \<and>
   isGameActive (resetGame s)"
  by (induction idxs)
     (simp_all add: handleCellClick_def resetGame_def renderBoard_def updateStatus_def)

theorem ended_game_ignores_clicks_witness:
  "\<not> isGameActive full_game \<and>
   handleCellClick 20 full_game = full_game \<and>
   run (map HandleCellClick [0, 4, 9, - 1]) full_game = full_game \<and>
   isGameActive (resetGame full_game)"
proof -
  have h: "\<not> isGameActive full_game"
    unfolding full_game_def by code_simp
  from h ended_game_ignores_clicks[OF h, of 20 "[0, 4, 9, - 1]"] show ?thesis by simp
qed

section \<open>Reset\<close>

text \<open>
  Claim C5. Whatever the nine cells hold, whoever is to move and whether or not the
  game has ended, \<open>resetGame\<close> gives exactly the initial state: nine \<open>Null\<close> cells,
  player X to move, game active, the turn shown and no cell highlighted. It is a total
  function with no failing branch. The board is taken as the nine-element array that the
  spec's data model describes; \<^verbatim>\<open>fill\<close> keeps the length of the array it is given.
\<close>

theorem reset_gives_initial:
  "length (elems (boardState s)) = 9 \<Longrightarrow> props (boardState s) = [] \<Longrightarrow>
   resetGame s = initial_game"
  by (simp add: resetGame_def initial_game_def renderBoard_def updateStatus_def afill_def)

theorem reset_gives_initial_witness:
  "length (elems (boardState full_game)) = 9 \<and> props (boardState full_game) = [] \<and>
   full_game \<noteq> initial_game \<and> resetGame full_game = initial_game"
proof -
  have h1: "length (elems (boardState full_game)) = 9"
    unfolding full_game_def by code_simp
  have h2: "props (boardState full_game) = []"
    unfolding full_game_def by code_simp
  have h3: "isGameActive initial_game" "\<not> isGameActive full_game"
    unfolding full_game_def by code_simp+
  then have "full_game \<noteq> initial_game" by metis
  with h1 h2 reset_gives_initial[OF h1 h2] show ?thesis by simp
qed

section \<open>Accepted moves\<close>

text \<open>
  Claim C10. An accepted click at index \<open>i\<close> (game active, cell \<open>i\<close> not holding a
  mark) changes the board at \<open>i\<close> only: reading \<open>i\<close> afterwards gives the mover's
  mark, and reading any other key gives what it gave before. When \<open>i\<close> is a position of
  the array, the new board is the old one with that one element replaced.
\<close>

theorem one_cell_changes:
  assumes "isGameActive s" and "\<not> truthy (aget (boardState s) i)"
  shows "aget (boardState (handleCellClick i s)) i = Mark (currentPlayer s) \<and>
         (\<forall>j. j \<noteq> i \<longrightarrow> aget (boardState (handleCellClick i s)) j = aget (boardState s) j) \<and>
         (is_array_index i \<and> nat i < length (elems (boardState s)) \<longrightarrow>
            boardState (handleCellClick i s) =
              (boardState s)\<lparr>elems := (elems (boardState s))[nat i := Mark (currentPlayer s)]\<rparr>)"
proof -
  from assms have b': "boardState (handleCellClick i s) = aset (boardState s) i (Mark (currentPlayer s))"
    by (simp add: boardState_click)
  have "aget (boardState (handleCellClick i s)) i = Mark (currentPlayer s)"
    by (simp add: b' aget_aset_same)
  moreover have "\<forall>j. j \<noteq> i \<longrightarrow> aget (boardState (handleCellClick i s)) j = aget (boardState s) j"
    by (simp add: b' aget_aset_other)
  moreover have "is_array_index i \<and> nat i < length (elems (boardState s)) \<longrightarrow>
      boardState (handleCellClick i s) =
        (boardState s)\<lparr>elems := (elems (boardState s))[nat i := Mark (currentPlayer s)]\<rparr>"
    by (simp add: b' aset_def)
  ultimately show ?thesis by blast
qed

theorem one_cell_changes_witness:
  "isGameActive top_row_game \<and> \<not> truthy (aget (boardState top_row_game) 8) \<and>
   aget (boardState top_row_game) 8 = Null \<and>
   aget (boardState (handleCellClick 8 top_row_game)) 8 = Mark PlayerX \<and>
   aget (boardState (handleCellClick 8 top_row_game)) 3 = aget (boardState top_row_game) 3 \<and>
   elems (boardState (handleCellClick 8 top_row_game)) =
     (elems (boardState top_row_game))[8 := Mark PlayerX]"
proof -
  have h1: "isGameActive top_row_game"
    unfolding top_row_game_def by code_simp
  have h2: "\<not> truthy (aget (boardState top_row_game) 8)"
    unfolding top_row_game_def by code_simp
  have h3: "aget (boardState top_row_game) 8 = Null" "currentPlayer top_row_game = PlayerX"
    "is_array_index 8" "nat 8 < length (elems (boardState top_row_game))"
    unfolding top_row_game_def by code_simp+
  note t = one_cell_changes[OF h1 h2]
  have a: "aget (boardState (handleCellClick 8 top_row_game)) 8 = Mark PlayerX"
    using t[THEN conjunct1] h3(2) by simp
  have b: "aget (boardState (handleCellClick 8 top_row_game)) 3 = aget (boardState top_row_game) 3"
    using t[THEN conjunct2, THEN conjunct1, rule_format, of 3] by simp
  have c: "elems (boardState (handleCellClick 8 top_row_game)) =
      (elems (boardState top_row_game))[8 := Mark PlayerX]"
    using t[THEN conjunct2, THEN conjunct2] h3 by simp
  from h1 h2 h3(1) a b c show ?thesis by blast
qed

text \<open>
  Claim C2. For an accepted click on the nine-cell board (game active, target cell not
  holding a mark) the handler writes the current player's mark into the cell. Then, if
  some combination of \<open>WINNING_COMBINATIONS\<close> has three non-Empty equal cells, the game
  ends as won: the first such combination in list order is highlighted and the status
  names the player whose mark it holds. Otherwise, if all nine cells are non-Empty, the
  game ends as a draw. Otherwise the turn passes to the other player and the game
  stays active.
\<close>

theorem accepted_move:
  assumes "isGameActive s" and "\<not> truthy (aget (boardState s) i)"
    and "length (elems (boardState s)) = 9" and "Undefined \<notin> set (elems (boardState s))"
  shows "handleCellClick i s =
     (let p = currentPlayer s; b' = aset (boardState s) i (Mark p) in
      case find (wins b') WINNING_COMBINATIONS of
        Some t \<Rightarrow>
          s\<lparr>boardState := b', isGameActive := False,
            gameStatus := win_message (aget b' (hd t)),
            winningCells := winningCells s \<union> set t\<rparr>
      | None \<Rightarrow>
          if \<forall>k\<in>{0..8}. truthy (aget b' k)
          then s\<lparr>boardState := b', isGameActive := False, gameStatus := draw_message\<rparr>
          else s\<lparr>boardState := b', currentPlayer := other p,
                 gameStatus := turn_message (other p)\<rparr>)"
proof -
  let ?b' = "aset (boardState s) i (Mark (currentPlayer s))"
  have ev: "aevery (\<lambda>c. c \<noteq> Null) ?b' \<longleftrightarrow> (\<forall>k\<in>{0..8}. truthy (aget ?b' k))"
    using assms(3,4) by (rule every_nine)
  show ?thesis
    using assms(1,2) ev
    by (cases "currentPlayer s")
       (simp_all add: handleCellClick_def checkWinner_find Let_def updateStatus_def
          highlightWinningCells_def split: option.split)
qed

theorem accepted_move_witness:
  "isGameActive top_row_game \<and> \<not> truthy (aget (boardState top_row_game) 2) \<and>
   length (elems (boardState top_row_game)) = 9 \<and>
   Undefined \<notin> set (elems (boardState top_row_game)) \<and>
   handleCellClick 2 top_row_game =
     top_row_game\<lparr>boardState := aset (boardState top_row_game) 2 (Mark PlayerX),
       isGameActive := False, gameStatus := ''Player X Wins!'', winningCells := {0, 1, 2}\<rparr>"
proof -
  have h1: "isGameActive top_row_game"
    unfolding top_row_game_def by code_simp
  have h2: "\<not> truthy (aget (boardState top_row_game) 2)"
    unfolding top_row_game_def by code_simp
  have h3: "length (elems (boardState top_row_game)) = 9"
    unfolding top_row_game_def by code_simp
  have h4: "Undefined \<notin> set (elems (boardState top_row_game))"
    unfolding top_row_game_def by code_simp
  have p: "currentPlayer top_row_game = PlayerX"
    unfolding top_row_game_def by code_simp
  have f: "find (wins (aset (boardState top_row_game) 2 (Mark PlayerX))) WINNING_COMBINATIONS
           = Some [0, 1, 2]"
    unfolding top_row_game_def by code_simp
  have w: "aget (aset (boardState top_row_game) 2 (Mark PlayerX)) 0 = Mark PlayerX"
    unfolding top_row_game_def by code_simp
  have hl: "winningCells top_row_game = {}"
    unfolding top_row_game_def by code_simp
  from accepted_move[OF h1 h2 h3 h4]
  have "handleCellClick 2 top_row_game =
     top_row_game\<lparr>boardState := aset (boardState top_row_game) 2 (Mark PlayerX),
       isGameActive := False, gameStatus := ''Player X Wins!'', winningCells := {0, 1, 2}\<rparr>"
    by (simp add: p f w hl win_message_def)
  with h1 h2 h3 h4 show ?thesis by blast
qed

section \<open>Invariants of play\<close>

lemma count_list_list_update:
  "n < length xs \<Longrightarrow> xs ! n \<noteq> y \<Longrightarrow>
   count_list (xs[n := v]) y = count_list xs y + (if v = y then 1 else 0)"
proof (induction xs arbitrary: n)
  case Nil
  then show ?case by simp
next
  case (Cons x xs)
  show ?case
  proof (cases n)
    case 0
    with Cons.prems show ?thesis by simp
  next
    case (Suc m)
    with Cons.prems have "m < length xs" "xs ! m \<noteq> y" by simp_all
    from Cons.IH[OF this] Suc show ?thesis by simp
  qed
qed

lemma count_marks_aset:
  assumes "is_array_index i" "\<not> truthy (aget arr i)"
  shows "count_marks (aset arr i (Mark p)) q = count_marks arr q + (if p = q then 1 else 0)"
proof (cases "nat i < length (elems arr)")
  case True
  with assms have "elems arr ! nat i \<noteq> Mark q" by (auto simp: aget_def)
  from count_list_list_update[OF True this, of "Mark p"] True assms(1)
  show ?thesis by (simp add: count_marks_def elems_aset_cases)
next
  case False
  with assms(1) show ?thesis by (simp add: count_marks_def elems_aset_cases)
qed

lemma balanced_initial: "balanced initial_game"
  by (simp add: balanced_def initial_game_def renderBoard_def updateStatus_def count_marks_def)

lemma balanced_reset: "balanced (resetGame s)"
  by (simp add: balanced_def resetGame_def renderBoard_def updateStatus_def count_marks_def
      afill_def)

lemma balanced_click:
  assumes "balanced s" "is_array_index i"
  shows "balanced (handleCellClick i s)"
proof (cases "\<not> isGameActive s \<or> truthy (aget (boardState s) i)")
  case True
  with assms(1) show ?thesis by (simp add: handleCellClick_def)
next
  case False
  then have nt: "\<not> truthy (aget (boardState s) i)" and act: "isGameActive s" by auto
  note cm = count_marks_aset[OF assms(2) nt]
  from assms(1) act False show ?thesis
    by (cases "currentPlayer s")
       (auto simp: handleCellClick_def balanced_def Let_def updateStatus_def
          highlightWinningCells_def cm split: option.splits)
qed

lemma balanced_exec: "balanced s \<Longrightarrow> index_call c \<Longrightarrow> balanced (exec c s)"
  by (cases c) (simp_all add: balanced_click balanced_reset)

lemma balanced_run: "balanced s \<Longrightarrow> \<forall>c\<in>set cs. index_call c \<Longrightarrow> balanced (run cs s)"
  by (induction cs arbitrary: s) (simp_all add: balanced_exec)

text \<open>
  Claim C6. After any sequence of cell clicks and resets, started in the initial state
  or in the state a reset leaves, the board holds as many X marks as O marks, or
  exactly one more: the O marks never outnumber the X marks. The clicks may aim at any
  array index, on the board or beyond its end.
\<close>

theorem mark_counts_balanced:
  assumes "\<forall>c\<in>set cs. index_call c"
    and "start = initial_game \<or> start = resetGame s0"
  shows "(count_marks (boardState (run cs start)) PlayerX =
            count_marks (boardState (run cs start)) PlayerO \<or>
          count_marks (boardState (run cs start)) PlayerX =
            count_marks (boardState (run cs start)) PlayerO + 1) \<and>
         count_marks (boardState (run cs start)) PlayerO \<le>
           count_marks (boardState (run cs start)) PlayerX"
proof -
  from assms(2) have "balanced start"
    using balanced_initial balanced_reset by blast
  from balanced_run[OF this assms(1)] show ?thesis
    by (auto simp: balanced_def Let_def split: if_splits)
qed

theorem mark_counts_balanced_witness:
  "index_call (HandleCellClick 0) \<and> index_call (HandleCellClick 4) \<and>
   index_call (HandleCellClick 1) \<and>
   count_marks (boardState (run (map HandleCellClick [0, 4, 1]) initial_game)) PlayerX = 2 \<and>
   count_marks (boardState (run (map HandleCellClick [0, 4, 1]) initial_game)) PlayerO = 1 \<and>
   count_marks (boardState (run (map HandleCellClick [0, 4, 1]) initial_game)) PlayerO \<le>
     count_marks (boardState (run (map HandleCellClick [0, 4, 1]) initial_game)) PlayerX"
proof -
  have h: "\<forall>c\<in>set (map HandleCellClick [0, 4, 1]). index_call c"
    by (simp add: is_array_index_def)
  have st: "initial_game = initial_game \<or> initial_game = resetGame initial_game"
    by simp
  have x: "count_marks (boardState (run (map HandleCellClick [0, 4, 1]) initial_game)) PlayerX = 2"
    by code_simp
  have o: "count_marks (boardState (run (map HandleCellClick [0, 4, 1]) initial_game)) PlayerO = 1"
    by code_simp
  from mark_counts_balanced[OF h st] h x o show ?thesis by simp
qed

lemma checkWinner_reset: "checkWinner (resetGame s) = None"
  by (auto simp: checkWinner_def resetGame_def renderBoard_def updateStatus_def afill_def
      WINNING_COMBINATIONS_def aget_def is_array_index_def)

lemma checkWinner_initial: "checkWinner initial_game = None"
  by (simp add: checkWinner_def initial_game_def renderBoard_def updateStatus_def
      WINNING_COMBINATIONS_def aget_def is_array_index_def)

lemma no_winner_yet_click: "no_winner_yet s \<Longrightarrow> no_winner_yet (handleCellClick i s)"
  by (auto simp: no_winner_yet_def handleCellClick_def Let_def updateStatus_def
      highlightWinningCells_def checkWinner_def split: option.splits)

lemma no_winner_yet_exec: "no_winner_yet s \<Longrightarrow> no_winner_yet (exec c s)"
  by (cases c) (simp_all add: no_winner_yet_click, simp add: no_winner_yet_def checkWinner_reset)

lemma no_winner_yet_run: "no_winner_yet s \<Longrightarrow> no_winner_yet (run cs s)"
  by (induction cs arbitrary: s) (simp_all add: no_winner_yet_exec)

text \<open>
  Claim C8. In a state reached by any cell clicks and resets from the initial state, or
  from the state a reset leaves, the win check reports no winner while the game is active. So when an accepted click
  makes the win check report a winner, the reported combination contains the clicked
  cell, the reported winner is the player who clicked, and the handler ends the game
  naming that player.
\<close>

theorem winner_is_mover:
  assumes "start = initial_game \<or> start = resetGame s0"
    and "s = run cs start" and "isGameActive s"
    and "\<not> truthy (aget (boardState s) i)"
    and "checkWinner (s\<lparr>boardState := aset (boardState s) i (Mark (currentPlayer s))\<rparr>)
           = Some (w, t)"
  shows "checkWinner s = None \<and> w = Mark (currentPlayer s) \<and> i \<in> set t \<and>
         \<not> isGameActive (handleCellClick i s) \<and>
         gameStatus (handleCellClick i s) = win_message (Mark (currentPlayer s))"
proof -
  let ?b = "boardState s" and ?b' = "aset (boardState s) i (Mark (currentPlayer s))"
  from assms(1) have "no_winner_yet start"
    by (auto simp: no_winner_yet_def checkWinner_initial checkWinner_reset)
  then have "no_winner_yet s" unfolding assms(2) by (rule no_winner_yet_run)
  with assms(3) have none: "checkWinner s = None" by (simp add: no_winner_yet_def)
  then have nofind: "find (wins ?b) WINNING_COMBINATIONS = None"
    by (simp add: checkWinner_find split: option.splits)
  from assms(5) have f: "find (wins ?b') WINNING_COMBINATIONS = Some t"
    and w: "w = aget ?b' (hd t)"
    by (auto simp: checkWinner_find split: option.splits)
  from f have tw: "wins ?b' t" and tin: "t \<in> set WINNING_COMBINATIONS"
    by (auto simp: find_Some_iff)
  have it: "i \<in> set t"
  proof (rule ccontr)
    assume "i \<notin> set t"
    with tw have "wins ?b t" by (rule wins_frame)
    with tin nofind show False by (simp add: find_None_iff)
  qed
  from wins_value[OF tw it] w have wm: "w = Mark (currentPlayer s)"
    by (simp add: aget_aset_same)
  from assms(3,4,5) wm
  have "\<not> isGameActive (handleCellClick i s) \<and>
        gameStatus (handleCellClick i s) = win_message (Mark (currentPlayer s))"
    by (simp add: handleCellClick_def Let_def updateStatus_def highlightWinningCells_def)
  with none wm it show ?thesis by blast
qed

theorem winner_is_mover_witness:
  "top_row_game = run (map HandleCellClick [0, 4, 1, 3]) initial_game \<and>
   isGameActive top_row_game \<and> \<not> truthy (aget (boardState top_row_game) 2) \<and>
   checkWinner (top_row_game\<lparr>boardState :=
       aset (boardState top_row_game) 2 (Mark (currentPlayer top_row_game))\<rparr>)
     = Some (Mark PlayerX, [0, 1, 2]) \<and>
   currentPlayer top_row_game = PlayerX \<and>
   gameStatus (handleCellClick 2 top_row_game) = ''Player X Wins!''"
proof -
  have h1: "isGameActive top_row_game"
    unfolding top_row_game_def by code_simp
  have h2: "\<not> truthy (aget (boardState top_row_game) 2)"
    unfolding top_row_game_def by code_simp
  have h3: "checkWinner (top_row_game\<lparr>boardState :=
       aset (boardState top_row_game) 2 (Mark (currentPlayer top_row_game))\<rparr>)
     = Some (Mark PlayerX, [0, 1, 2])"
    unfolding top_row_game_def by code_simp
  have st: "initial_game = initial_game \<or> initial_game = resetGame initial_game"
    by simp
  from winner_is_mover[OF st top_row_game_def h1 h2 h3]
  have "currentPlayer top_row_game = PlayerX \<and>
        gameStatus (handleCellClick 2 top_row_game) = ''Player X Wins!''"
    by (auto simp: win_message_def)
  with h1 h2 h3 top_row_game_def show ?thesis by blast
qed

section \<open>The calls the page makes\<close>

lemma page_calls_range: "HandleCellClick i \<in> set page_calls \<longleftrightarrow> 0 \<le> i \<and> i \<le> 8"
proof
  assume "HandleCellClick i \<in> set page_calls"
  then show "0 \<le> i \<and> i \<le> 8" by (auto simp: page_calls_def)
next
  assume r: "0 \<le> i \<and> i \<le> 8"
  then have "nat i < 9" and "i = int (nat i)" by auto
  then have "HandleCellClick i \<in> (\<lambda>n. HandleCellClick (int n)) ` {0..<9}"
    by (metis atLeastLessThan_iff image_eqI le0)
  then show "HandleCellClick i \<in> set page_calls" by (simp add: page_calls_def)
qed

lemma page_board_initial: "page_board (boardState initial_game)"
  by (simp add: page_board_def initial_game_def renderBoard_def updateStatus_def)

lemma page_board_reset: "page_board (boardState s) \<Longrightarrow> page_board (boardState (resetGame s))"
  by (simp add: page_board_def resetGame_def renderBoard_def updateStatus_def afill_def)

lemma page_board_aset:
  assumes "page_board arr" "0 \<le> i \<and> i \<le> 8"
  shows "page_board (aset arr i (Mark p))"
proof -
  from assms have "is_array_index i" "nat i < length (elems arr)"
    by (auto simp: page_board_def is_array_index_def)
  then have e: "aset arr i (Mark p) = arr\<lparr>elems := (elems arr)[nat i := Mark p]\<rparr>"
    by (simp add: aset_def)
  have "set ((elems arr)[nat i := Mark p]) \<subseteq> insert (Mark p) (set (elems arr))"
    by (rule set_update_subset_insert)
  with assms(1) show ?thesis unfolding e by (auto simp: page_board_def)
qed

lemma page_board_click:
  "page_board (boardState s) \<Longrightarrow> 0 \<le> i \<and> i \<le> 8 \<Longrightarrow>
   page_board (boardState (handleCellClick i s))"
  by (simp add: boardState_click page_board_aset)

lemma page_board_exec:
  "page_board (boardState s) \<Longrightarrow> c \<in> set page_calls \<Longrightarrow> page_board (boardState (exec c s))"
  by (cases c) (simp_all add: page_board_click page_board_reset page_calls_range)

lemma page_board_run:
  "page_board (boardState s) \<Longrightarrow> set cs \<subseteq> set page_calls \<Longrightarrow>
   page_board (boardState (run cs s))"
  by (induction cs arbitrary: s) (simp_all add: page_board_exec)

text \<open>
  Claim C9. \<open>handleCellClick\<close> does not check the range of its index. On the
  nine-cell board of an active game, for every index outside \<open>0..8\<close> the read of the
  cell gives \<open>Undefined\<close>, so the guard lets the click through, and the current player's
  mark is stored under that index: the board object goes from nine entries to ten. For
  an array index the array's length becomes the index plus one; for a negative index
  the mark is stored as a property beside the nine elements. The page cannot do this:
  the listeners that \<open>renderBoard\<close> binds call the handler with \<open>0..8\<close> only, and under
  the page's calls the board stays the nine-cell board.
\<close>

theorem no_range_check:
  assumes "isGameActive s" and "page_board (boardState s)" and "i < 0 \<or> 8 < i"
  shows "aget (boardState s) i = Undefined \<and>
         aget (boardState (handleCellClick i s)) i = Mark (currentPlayer s) \<and>
         entries (boardState s) = 9 \<and>
         entries (boardState (handleCellClick i s)) = 10 \<and>
         (is_array_index i \<longrightarrow> length (elems (boardState (handleCellClick i s))) = nat i + 1) \<and>
         (\<not> is_array_index i \<longrightarrow>
            props (boardState (handleCellClick i s)) = [(i, Mark (currentPlayer s))]) \<and>
         (\<forall>j. HandleCellClick j \<in> set page_calls \<longrightarrow> 0 \<le> j \<and> j \<le> 8) \<and>
         (\<forall>cs. set cs \<subseteq> set page_calls \<longrightarrow> page_board (boardState (run cs initial_game)))"
proof -
  let ?b = "boardState s"
  from assms(2) have len: "length (elems ?b) = 9" and nh: "Undefined \<notin> set (elems ?b)"
    and np: "props ?b = []" by (simp_all add: page_board_def)
  have u: "aget ?b i = Undefined"
    using assms(3) len np by (auto simp: aget_def is_array_index_def)
  with assms(1) have b': "boardState (handleCellClick i s) = aset ?b i (Mark (currentPlayer s))"
    by (simp add: boardState_click)
  have w: "aget (boardState (handleCellClick i s)) i = Mark (currentPlayer s)"
    by (simp add: b' aget_aset_same)
  have f: "filter (\<lambda>c. c \<noteq> Undefined) (elems ?b) = elems ?b"
    using nh by (simp add: filter_id_conv) metis
  have e9: "entries ?b = 9" by (simp add: entries_def f len np)
  have e10: "entries (boardState (handleCellClick i s)) = 10"
    using assms(3) by (auto simp: b' entries_def aset_def f len np is_array_index_def)
  have l: "is_array_index i \<longrightarrow> length (elems (boardState (handleCellClick i s))) = nat i + 1"
    using assms(3) by (auto simp: b' elems_aset_cases len is_array_index_def)
  have pr: "\<not> is_array_index i \<longrightarrow>
      props (boardState (handleCellClick i s)) = [(i, Mark (currentPlayer s))]"
    by (simp add: b' aset_def np)
  have pc: "\<forall>j. HandleCellClick j \<in> set page_calls \<longrightarrow> 0 \<le> j \<and> j \<le> 8"
    by (simp add: page_calls_range)
  have pb: "\<forall>cs. set cs \<subseteq> set page_calls \<longrightarrow> page_board (boardState (run cs initial_game))"
    using page_board_run[OF page_board_initial] by blast
  from u w e9 e10 l pr pc pb show ?thesis by blast
qed

theorem no_range_check_witness:
  "isGameActive initial_game \<and> page_board (boardState initial_game) \<and>
   aget (boardState initial_game) 12 = Undefined \<and>
   aget (boardState (handleCellClick 12 initial_game)) 12 = Mark PlayerX \<and>
   entries (boardState (handleCellClick 12 initial_game)) = 10 \<and>
   length (elems (boardState (handleCellClick 12 initial_game))) = 13 \<and>
   HandleCellClick 12 \<notin> set page_calls"
proof -
  have h1: "isGameActive initial_game" by code_simp
  have h2: "page_board (boardState initial_game)" by (rule page_board_initial)
  have h3: "(12::int) < 0 \<or> 8 < (12::int)" by simp
  have p: "currentPlayer initial_game = PlayerX" "is_array_index 12" by code_simp+
  note t = no_range_check[OF h1 h2 h3]
  have a: "aget (boardState initial_game) 12 = Undefined"
    using t by blast
  have b: "aget (boardState (handleCellClick 12 initial_game)) 12 = Mark PlayerX"
    using t p(1) by simp
  have c: "entries (boardState (handleCellClick 12 initial_game)) = 10"
    using t by blast
  have d: "length (elems (boardState (handleCellClick 12 initial_game))) = 13"
    using t p(2) by simp
  have e: "HandleCellClick 12 \<notin> set page_calls"
    using t[THEN conjunct2, THEN conjunct2, THEN conjunct2, THEN conjunct2, THEN conjunct2,
        THEN conjunct2, THEN conjunct1, rule_format, of 12] by auto
  from h1 h2 a b c d e show ?thesis by blast
qed

section \<open>Draws\<close>

lemma draw_inv_initial: "draw_inv initial_game"
  by (simp add: draw_inv_def page_board_def initial_game_def renderBoard_def updateStatus_def)

lemma draw_inv_reset: "draw_inv s \<Longrightarrow> draw_inv (resetGame s)"
  by (simp add: draw_inv_def page_board_def resetGame_def renderBoard_def updateStatus_def
      afill_def)

lemma draw_inv_click:
  assumes "draw_inv s" "0 \<le> i \<and> i \<le> 8"
  shows "draw_inv (handleCellClick i s)"
proof (cases "\<not> isGameActive s \<or> truthy (aget (boardState s) i)")
  case True
  with assms(1) show ?thesis by (simp add: handleCellClick_def)
next
  case False
  let ?s1 = "s\<lparr>boardState := aset (boardState s) i (Mark (currentPlayer s))\<rparr>"
  from assms have pb: "page_board (boardState ?s1)"
    by (simp add: draw_inv_def page_board_aset)
  have nn: "\<not> aevery (\<lambda>c. c \<noteq> Null) (boardState ?s1) \<Longrightarrow>
            Null \<in> set (elems (boardState ?s1))"
    by (auto simp: aevery_def list_all_iff)
  from False pb nn show ?thesis
    by (auto simp: handleCellClick_def draw_inv_def Let_def updateStatus_def
        highlightWinningCells_def checkWinner_def split: option.splits)
qed

lemma draw_inv_exec: "draw_inv s \<Longrightarrow> c \<in> set page_calls \<Longrightarrow> draw_inv (exec c s)"
  by (cases c) (simp_all add: draw_inv_click draw_inv_reset page_calls_range)

lemma draw_inv_run: "draw_inv s \<Longrightarrow> set cs \<subseteq> set page_calls \<Longrightarrow> draw_inv (run cs s)"
  by (induction cs arbitrary: s) (simp_all add: draw_inv_exec)

text \<open>
  Claim C7. When a sequence of the page's calls (clicks on the cells \<open>0..8\<close>, resets
  allowed) from the initial state leaves all nine cells holding marks and none of the
  eight lines (rows, columns, diagonals) holding three equal marks, the game has ended
  and the status reads \<^verbatim>\<open>It's a Draw!\<close>.
\<close>

theorem full_board_draw:
  assumes "set cs \<subseteq> set page_calls" and "s = run cs initial_game"
    and "\<forall>k\<in>{0..8}. truthy (aget (boardState s) k)"
    and "\<forall>t\<in>set spec_triples. \<not> wins (boardState s) t"
  shows "\<not> isGameActive s \<and> gameStatus s = draw_message"
proof -
  have inv: "draw_inv s"
    unfolding assms(2) using draw_inv_initial assms(1) by (rule draw_inv_run)
  then have len: "length (elems (boardState s)) = 9"
    by (simp add: draw_inv_def page_board_def)
  have "Null \<notin> set (elems (boardState s))"
  proof
    assume "Null \<in> set (elems (boardState s))"
    then obtain n where n: "n < 9" "elems (boardState s) ! n = Null"
      using len by (metis in_set_conv_nth)
    then have "aget (boardState s) (int n) = Null"
      using len by (simp add: aget_def is_array_index_def)
    moreover from n(1) have "int n \<in> {0..8}" by simp
    ultimately show False using assms(3) by (metis truthy.simps(2))
  qed
  with inv have "\<not> isGameActive s"
    and "checkWinner s \<noteq> None \<or> gameStatus s = draw_message"
    by (auto simp: draw_inv_def split: if_splits)
  moreover have "checkWinner s = None"
    using assms(4) combinations_in_spec
    by (auto simp: checkWinner_find find_None_iff split: option.splits)
  ultimately show ?thesis by simp
qed

theorem full_board_draw_witness:
  "set (map HandleCellClick [0, 1, 2, 4, 3, 5, 7, 6, 8]) \<subseteq> set page_calls \<and>
   elems (boardState full_game) =
     [Mark PlayerX, Mark PlayerO, Mark PlayerX,
      Mark PlayerX, Mark PlayerO, Mark PlayerO,
      Mark PlayerO, Mark PlayerX, Mark PlayerX] \<and>
   \<not> isGameActive full_game \<and> gameStatus full_game = ''It's a Draw!''"
proof -
  have h1: "set (map HandleCellClick [0, 1, 2, 4, 3, 5, 7, 6, 8]) \<subseteq> set page_calls"
    by (simp add: page_calls_range)
  have b: "elems (boardState full_game) =
     [Mark PlayerX, Mark PlayerO, Mark PlayerX,
      Mark PlayerX, Mark PlayerO, Mark PlayerO,
      Mark PlayerO, Mark PlayerX, Mark PlayerX]"
    unfolding full_game_def by code_simp
  have h3: "\<forall>k\<in>{0..8}. truthy (aget (boardState full_game) k)"
  proof
    fix k :: int assume "k \<in> {0..8}"
    then have "k = 0 \<or> k = 1 \<or> k = 2 \<or> k = 3 \<or> k = 4 \<or> k = 5 \<or> k = 6 \<or> k = 7 \<or> k = 8"
      by auto
    then show "truthy (aget (boardState full_game) k)"
      by (auto simp: aget_def is_array_index_def b)
  qed
  have h4: "\<forall>t\<in>set spec_triples. \<not> wins (boardState full_game) t"
    by (simp add: spec_triples_def aget_def is_array_index_def b)
  from full_board_draw[OF h1 full_game_def h3 h4] h1 b show ?thesis
    by (simp add: draw_message_def)
qed

section \<open>Columns and diagonals\<close>

text \<open>
  Claim C1. The claim asks that filling any of the eight lines with one player's mark
  ends the game as won by that player on that line. \<open>WINNING_COMBINATIONS\<close> lists the
  three rows only, so the win check never sees a column or a diagonal. After the clicks
  \<open>0, 1, 3, 2, 6\<close> player X holds the left column \<open>[0, 3, 6]\<close>, and after the clicks
  \<open>0, 1, 4, 2, 8\<close> the diagonal \<open>[0, 4, 8]\<close>; in both runs the win check reports
  nothing, the game stays active, no cell is highlighted and the status announces
  player O's turn.
\<close>

theorem column_and_diagonal_missed:
  "[0, 3, 6] \<in> set spec_triples \<and> wins (boardState column_game) [0, 3, 6] \<and>
   aget (boardState column_game) 0 = Mark PlayerX \<and>
   checkWinner column_game = None \<and> isGameActive column_game \<and>
   gameStatus column_game = ''Player O's Turn'' \<and> winningCells column_game = {} \<and>
   [0, 4, 8] \<in> set spec_triples \<and> wins (boardState diagonal_game) [0, 4, 8] \<and>
   aget (boardState diagonal_game) 0 = Mark PlayerX \<and>
   checkWinner diagonal_game = None \<and> isGameActive diagonal_game \<and>
   gameStatus diagonal_game = ''Player O's Turn'' \<and> winningCells diagonal_game = {}"
  unfolding column_game_def diagonal_game_def by code_simp

end
